theory Spec2Isabelle
  imports Complex_Main "HOL-Library.Multiset" "HOL-Library.Word"
begin

section \<open>Data model\<close>

text \<open>
  The quiz engine lives in \<^verbatim>\<open>src/src/pages/Game.tsx\<close>; the types \<^verbatim>\<open>Difficulty\<close>,
  \<^verbatim>\<open>Category\<close>, \<^verbatim>\<open>Question\<close> and the table \<^verbatim>\<open>DIFFICULTY_POINTS\<close> are the ones
  written out in \<^verbatim>\<open>src/unnamed/part_000\<close> (lines 45-64).

  A JavaScript string is a sequence of UTF-16 code units. A JavaScript \<^verbatim>\<open>number\<close> that
  holds a score, an index or an answer index is modelled as an unbounded integer: the
  game only ever adds 10, 20 or 30 to 0.
\<close>

type_synonym jsstring = "16 word list"

datatype Difficulty = Easy | Medium | Hard

datatype Category = HIV_Self_Testing | PrEP | Reproductive_Health

text \<open>The fields \<^verbatim>\<open>id\<close> and \<^verbatim>\<open>text\<close> are called \<open>qid\<close> and \<open>qtext\<close> here.\<close>

record Question =
  qid :: jsstring
  category :: Category
  difficulty :: Difficulty
  qtext :: jsstring
  options :: "jsstring list"
  answerIndex :: int
  explanation :: "jsstring option"

record ScoreEntry =
  name :: jsstring
  score :: int
  date :: jsstring

fun DIFFICULTY_POINTS :: "Difficulty \<Rightarrow> int" where
  "DIFFICULTY_POINTS Easy = 10"
| "DIFFICULTY_POINTS Medium = 20"
| "DIFFICULTY_POINTS Hard = 30"

datatype Step = Setup | Playing | Result

text \<open>
  The three calls of \<^verbatim>\<open>toast\<close>. The argument of \<open>Correct\<close> and \<open>NotQuite\<close> is
  \<^verbatim>\<open>current.explanation\<close>; when it is absent the source shows a fixed default text.
\<close>

datatype toast = EnterYourName | Correct "jsstring option" | NotQuite "jsstring option"

datatype exn = StorageError | SyntaxError | TypeError

text \<open>
  The text stored under \<^verbatim>\<open>LB_KEY\<close>, seen through \<^verbatim>\<open>JSON.parse\<close>: the empty string,
  a text that \<^verbatim>\<open>JSON.parse\<close> rejects, or the JSON text of an array of score entries
  (what \<^verbatim>\<open>JSON.stringify\<close> writes for such an array and \<^verbatim>\<open>JSON.parse\<close> reads back).
  JSON text of any other shape is outside the type \<^verbatim>\<open>ScoreEntry[]\<close> that
  \<^verbatim>\<open>readLeaderboard\<close> declares for its result, and has no counterpart here.
  \<open>Available None\<close> is a store without the key (\<^verbatim>\<open>getItem\<close> returns \<^verbatim>\<open>null\<close>);
  \<open>Unavailable\<close> is a store whose every access throws.
\<close>

datatype stored_text = Blank | NotJSON | JSON "ScoreEntry list"

datatype localStorage = Unavailable | Available "stored_text option"

text \<open>
  An object with its identity: the address distinguishes two objects with equal fields,
  which is what \<^verbatim>\<open>===\<close> compares.
\<close>

type_synonym 'a obj = "nat \<times> 'a"

text \<open>
  The state of the \<^verbatim>\<open>Game\<close> component (the \<^verbatim>\<open>useState\<close> cells of lines 93-104), the
  value cached by \<^verbatim>\<open>useMemo\<close> (\<open>filtered\<close>, lines 107-110), the notifications emitted
  so far and the browser's store. Sound playback has no effect on any of these and is
  left out.
\<close>

record state =
  playerName :: jsstring
  difficulty :: Difficulty
  step :: Step
  currentIdx :: nat
  score :: int
  selected :: "int option"
  questions :: "Question list"
  rank :: "int option"
  filtered :: "Question list"
  toasts :: "toast list"
  storage :: localStorage

section \<open>Built-in operations of the language\<close>

text \<open>
  \<^verbatim>\<open>String.prototype.trim\<close> removes the code units of ECMAScript's WhiteSpace and
  LineTerminator productions from both ends.
\<close>

definition isWhiteSpace :: "16 word \<Rightarrow> bool" where
  "isWhiteSpace c \<longleftrightarrow>
     c \<in> set [0x0009, 0x000A, 0x000B, 0x000C, 0x000D, 0x0020, 0x00A0, 0x1680,
              0x2000, 0x2001, 0x2002, 0x2003, 0x2004, 0x2005, 0x2006, 0x2007,
              0x2008, 0x2009, 0x200A, 0x2028, 0x2029, 0x202F, 0x205F, 0x3000, 0xFEFF]"

definition trim :: "jsstring \<Rightarrow> jsstring" where
  "trim s = rev (dropWhile isWhiteSpace (rev (dropWhile isWhiteSpace s)))"

text \<open>
  \<^verbatim>\<open>Array.prototype.sort\<close> with a comparator: a stable sort; \<open>c a b \<le> 0\<close> keeps \<open>a\<close>
  before \<open>b\<close>.
\<close>

fun insert_sorted :: "('a \<Rightarrow> 'a \<Rightarrow> int) \<Rightarrow> 'a \<Rightarrow> 'a list \<Rightarrow> 'a list" where
  "insert_sorted c x [] = [x]"
| "insert_sorted c x (y # ys) =
     (if c x y \<le> 0 then x # y # ys else y # insert_sorted c x ys)"

fun js_sort :: "('a \<Rightarrow> 'a \<Rightarrow> int) \<Rightarrow> 'a list \<Rightarrow> 'a list" where
  "js_sort c [] = []"
| "js_sort c (x # xs) = insert_sorted c x (js_sort c xs)"

text \<open>\<^verbatim>\<open>Array.prototype.findIndex\<close>: the first index whose element satisfies \<open>p\<close>, or -1.\<close>

fun findIndex_from :: "int \<Rightarrow> ('a \<Rightarrow> bool) \<Rightarrow> 'a list \<Rightarrow> int" where
  "findIndex_from k p [] = - 1"
| "findIndex_from k p (x # xs) = (if p x then k else findIndex_from (k + 1) p xs)"

definition findIndex :: "('a \<Rightarrow> bool) \<Rightarrow> 'a list \<Rightarrow> int" where
  "findIndex p xs = findIndex_from 0 p xs"

text \<open>\<^verbatim>\<open>try { body } catch { handler }\<close>.\<close>

definition try_catch :: "exn + 'a \<Rightarrow> (exn \<Rightarrow> exn + 'a) \<Rightarrow> exn + 'a" where
  "try_catch body handler = (case body of Inl e \<Rightarrow> handler e | Inr v \<Rightarrow> Inr v)"

definition getItem :: "localStorage \<Rightarrow> exn + stored_text option" where
  "getItem ls = (case ls of Unavailable \<Rightarrow> Inl StorageError | Available raw \<Rightarrow> Inr raw)"

definition setItem :: "stored_text \<Rightarrow> localStorage \<Rightarrow> exn + localStorage" where
  "setItem v ls =
     (case ls of Unavailable \<Rightarrow> Inl StorageError | Available _ \<Rightarrow> Inr (Available (Some v)))"

definition JSON_parse :: "stored_text \<Rightarrow> exn + ScoreEntry list" where
  "JSON_parse raw = (case raw of JSON l \<Rightarrow> Inr l | _ \<Rightarrow> Inl SyntaxError)"

section \<open>Question selection (Game.tsx, lines 48-55 and 107-110)\<close>

text \<open>
  \<open>random k\<close> is the value of the \<open>k\<close>-th call of \<^verbatim>\<open>Math.random()\<close>, a number in
  \<open>[0, 1)\<close> (see \<open>unitInterval\<close>); the product with \<open>i + 1\<close> is taken exactly.
\<close>

definition unitInterval :: "(nat \<Rightarrow> rat) \<Rightarrow> bool" where
  "unitInterval random \<longleftrightarrow> (\<forall>k. 0 \<le> random k \<and> random k < 1)"

definition randomIndex :: "rat \<Rightarrow> nat \<Rightarrow> nat" where
  "randomIndex r i = nat \<lfloor>r * (of_nat i + 1)\<rfloor>"

text \<open>\<^verbatim>\<open>[a[i], a[j]] = [a[j], a[i]]\<close>\<close>

definition swap :: "'a list \<Rightarrow> nat \<Rightarrow> nat \<Rightarrow> 'a list" where
  "swap a i j = (a[i := a ! j])[j := a ! i]"

text \<open>
  The loop \<^verbatim>\<open>for (let i = a.length - 1; i > 0; i--)\<close>, by recursion on \<open>i\<close>. An empty
  array starts at \<open>i = -1\<close> in the source and at \<open>i = 0\<close> here; neither runs the body.
\<close>

fun shuffle_loop :: "(nat \<Rightarrow> rat) \<Rightarrow> nat \<Rightarrow> 'a list \<Rightarrow> 'a list" where
  "shuffle_loop random 0 a = a"
| "shuffle_loop random (Suc i') a =
     (let i = Suc i';
          j = randomIndex (random 0) i
      in shuffle_loop (\<lambda>k. random (Suc k)) i' (swap a i j))"

definition shuffle :: "(nat \<Rightarrow> rat) \<Rightarrow> 'a list \<Rightarrow> 'a list" where
  "shuffle random arr = shuffle_loop random (length arr - 1) arr"

text \<open>
  The body of the \<^verbatim>\<open>useMemo\<close> of lines 107-110, with the bank and the batch size as
  parameters: \<^verbatim>\<open>QUESTIONS\<close> is imported from a module that is not part of the sources,
  and the size is 10 in Game.tsx.
\<close>

definition selectBatch :: "Question list \<Rightarrow> Difficulty \<Rightarrow> nat \<Rightarrow> (nat \<Rightarrow> rat) \<Rightarrow> Question list" where
  "selectBatch QUESTIONS d n random =
     (let pool = filter (\<lambda>q. Question.difficulty q = d) QUESTIONS
      in take n (shuffle random pool))"

text \<open>
  The same \<^verbatim>\<open>useMemo\<close> in \<^verbatim>\<open>src/unnamed/part_000\<close> (lines 230-233), where the page
  also has a category: the filter is
  \<^verbatim>\<open>q.category === category && q.difficulty === difficulty\<close> and the size is 5.
\<close>

definition selectBatchByCategory ::
  "Question list \<Rightarrow> Category \<Rightarrow> Difficulty \<Rightarrow> nat \<Rightarrow> (nat \<Rightarrow> rat) \<Rightarrow> Question list" where
  "selectBatchByCategory QUESTIONS c d n random =
     (let pool = filter (\<lambda>q. category q = c \<and> Question.difficulty q = d) QUESTIONS
      in take n (shuffle random pool))"

section \<open>Leaderboard store (Game.tsx, lines 71-85)\<close>

definition readLeaderboard :: "localStorage \<Rightarrow> exn + ScoreEntry list" where
  "readLeaderboard ls =
     try_catch
       (case getItem ls of
          Inl e \<Rightarrow> Inl e
        | Inr raw \<Rightarrow>
            (case raw of
               None \<Rightarrow> Inr []
             | Some t \<Rightarrow> if t = Blank then Inr [] else JSON_parse t))
       (\<lambda>_. Inr [])"

definition writeLeaderboard :: "ScoreEntry list \<Rightarrow> localStorage \<Rightarrow> exn + localStorage" where
  "writeLeaderboard list ls = setItem (JSON list) ls"

text \<open>The rows shown by \<^verbatim>\<open>LeaderboardList\<close> (lines 322-329): \<^verbatim>\<open>list.slice(0, 10)\<close>.\<close>

definition LeaderboardList :: "localStorage \<Rightarrow> exn + ScoreEntry list" where
  "LeaderboardList ls =
     (case readLeaderboard ls of Inl e \<Rightarrow> Inl e | Inr list \<Rightarrow> Inr (take 10 list))"

section \<open>Event handlers (Game.tsx, lines 122-168)\<close>

definition current :: "state \<Rightarrow> Question option" where
  "current st =
     (if currentIdx st < length (questions st) then Some (questions st ! currentIdx st)
      else None)"

definition handleStart :: "state \<Rightarrow> state" where
  "handleStart st =
     (if trim (playerName st) = [] then st\<lparr>toasts := toasts st @ [EnterYourName]\<rparr>
      else st\<lparr>step := Playing\<rparr>)"

text \<open>
  \<^verbatim>\<open>current.answerIndex\<close> throws a TypeError when there is no current question; the
  selection queued just before it is not kept in that case. The page has no option
  button then, so \<open>dispatch\<close> below never gets there.
\<close>

definition handleOption :: "int \<Rightarrow> state \<Rightarrow> exn + state" where
  "handleOption index st =
     (if selected st \<noteq> None then Inr st
      else
        (case current st of
           None \<Rightarrow> Inl TypeError
         | Some q \<Rightarrow>
             (let st1 = st\<lparr>selected := Some index\<rparr>;
                  isCorrect = (index = answerIndex q)
              in if isCorrect
                 then Inr (st1\<lparr>score := score st1 + DIFFICULTY_POINTS (difficulty st1),
                               toasts := toasts st1 @ [Correct (explanation q)]\<rparr>)
                 else Inr (st1\<lparr>toasts := toasts st1 @ [NotQuite (explanation q)]\<rparr>))))"

text \<open>
  Line 156: the entry is a new object (address 0), the parsed entries are objects of
  their own (addresses from 1), and the comparator is \<^verbatim>\<open>(a, b) => b.score - a.score\<close>.
\<close>

definition byScoreDesc :: "ScoreEntry \<Rightarrow> ScoreEntry \<Rightarrow> int" where
  "byScoreDesc a b = ScoreEntry.score b - ScoreEntry.score a"

definition "next" :: "jsstring \<Rightarrow> state \<Rightarrow> exn + state" where
  "next now st =
     (if currentIdx st + 1 < length (questions st)
      then Inr (st\<lparr>currentIdx := currentIdx st + 1, selected := None\<rparr>)
      else
        (let entry = (0, \<lparr>name = trim (playerName st), ScoreEntry.score = score st,
                          date = now\<rparr>)
         in case readLeaderboard (storage st) of
              Inl e \<Rightarrow> Inl e
            | Inr parsed \<Rightarrow>
                (let lb = enumerate 1 parsed;
                     updated = take 20 (js_sort (\<lambda>a b. byScoreDesc (snd a) (snd b)) (lb @ [entry]))
                 in case writeLeaderboard (map snd updated) (storage st) of
                      Inl e \<Rightarrow> Inl e
                    | Inr ls \<Rightarrow>
                        (let newRank = findIndex (\<lambda>e. fst e = fst entry) updated + 1
                         in Inr (st\<lparr>storage := ls,
                                     rank := (if newRank = 0 then None else Some newRank),
                                     step := Result\<rparr>)))))"

definition restart :: "state \<Rightarrow> state" where
  "restart st = st\<lparr>step := Setup\<rparr>"

section \<open>Rendering: the memo and the effect (Game.tsx, lines 107-120)\<close>

text \<open>The body of the \<^verbatim>\<open>useEffect\<close> of lines 112-120.\<close>

definition effect :: "state \<Rightarrow> state" where
  "effect st =
     (if step st = Setup
      then st\<lparr>questions := filtered st, currentIdx := 0, score := 0, selected := None,
              rank := None\<rparr>
      else st)"

text \<open>
  A render after an event took the state from \<open>old\<close> to \<open>new\<close>. \<^verbatim>\<open>useMemo\<close> with
  dependencies \<^verbatim>\<open>[difficulty]\<close> computes \<open>filtered\<close> again only when \<open>difficulty\<close>
  differs from the previous render; \<^verbatim>\<open>useEffect\<close> with dependencies
  \<^verbatim>\<open>[filtered, step]\<close> runs when \<open>filtered\<close> is a new array or \<open>step\<close> differs.
  \<open>random\<close> is what \<^verbatim>\<open>Math.random()\<close> would return during this render.
\<close>

definition render :: "Question list \<Rightarrow> (nat \<Rightarrow> rat) \<Rightarrow> state \<Rightarrow> state \<Rightarrow> state" where
  "render QUESTIONS random old new =
     (let recomputed = (difficulty new \<noteq> difficulty old);
          new1 = (if recomputed
                  then new\<lparr>filtered := selectBatch QUESTIONS (difficulty new) 10 random\<rparr>
                  else new)
      in if recomputed \<or> step new1 \<noteq> step old then effect new1 else new1)"

text \<open>The first render: the initial values of lines 93-104, the memo and the effect.\<close>

definition mount :: "Question list \<Rightarrow> (nat \<Rightarrow> rat) \<Rightarrow> localStorage \<Rightarrow> state" where
  "mount QUESTIONS random ls =
     effect \<lparr>playerName = [], difficulty = Easy, step = Setup, currentIdx = 0, score = 0,
             selected = None, questions = [], rank = None,
             filtered = selectBatch QUESTIONS Easy 10 random, toasts = [], storage = ls\<rparr>"

text \<open>
  The controls of the page (lines 189-300). A control exists only in the step that
  renders it: the name and difficulty inputs and the start button in \<^verbatim>\<open>setup\<close>; one
  button per option of the current question (disabled once an option is selected) and
  the next button in \<^verbatim>\<open>playing\<close> when there is a current question; the play-again
  button in \<^verbatim>\<open>result\<close>. An exception thrown by a handler leaves the state as it was.
  \<open>Next\<close> carries the value of \<^verbatim>\<open>new Date().toISOString()\<close>.
\<close>

datatype event =
    SetPlayerName jsstring
  | SetDifficulty Difficulty
  | HandleStart
  | HandleOption nat
  | Next jsstring
  | Restart

definition dispatch :: "Question list \<Rightarrow> (nat \<Rightarrow> rat) \<Rightarrow> event \<Rightarrow> state \<Rightarrow> state" where
  "dispatch QUESTIONS random ev st =
     (case ev of
        SetPlayerName s \<Rightarrow>
          if step st = Setup then render QUESTIONS random st (st\<lparr>playerName := s\<rparr>) else st
      | SetDifficulty d \<Rightarrow>
          if step st = Setup then render QUESTIONS random st (st\<lparr>difficulty := d\<rparr>) else st
      | HandleStart \<Rightarrow>
          if step st = Setup then render QUESTIONS random st (handleStart st) else st
      | HandleOption i \<Rightarrow>
          (case current st of
             None \<Rightarrow> st
           | Some q \<Rightarrow>
               if step st = Playing \<and> i < length (options q) \<and> selected st = None
               then (case handleOption (int i) st of
                       Inl e \<Rightarrow> st
                     | Inr st' \<Rightarrow> render QUESTIONS random st st')
               else st)
      | Next now \<Rightarrow>
          if step st = Playing \<and> current st \<noteq> None
          then (case next now st of
                  Inl e \<Rightarrow> st
                | Inr st' \<Rightarrow> render QUESTIONS random st st')
          else st
      | Restart \<Rightarrow>
          if step st = Result then render QUESTIONS random st (restart st) else st)"

fun run :: "Question list \<Rightarrow> ((nat \<Rightarrow> rat) \<times> event) list \<Rightarrow> state \<Rightarrow> state" where
  "run QUESTIONS [] st = st"
| "run QUESTIONS ((random, ev) # es) st = run QUESTIONS es (dispatch QUESTIONS random ev st)"

inductive reachable :: "Question list \<Rightarrow> state \<Rightarrow> bool" for QUESTIONS where
  reachable_mount: "unitInterval random \<Longrightarrow> reachable QUESTIONS (mount QUESTIONS random ls)"
| reachable_dispatch:
    "reachable QUESTIONS st \<Longrightarrow> unitInterval random \<Longrightarrow>
     reachable QUESTIONS (dispatch QUESTIONS random ev st)"

section \<open>What a session's answers are worth, in the words of the specification\<close>

text \<open>
  The first option submitted for each question of a batch, read off the sequence of the
  player's actions alone: \<open>k\<close> is the question on display, \<open>answered\<close> tells whether an
  option was already submitted for it, and the session is over after the advance from
  the last question (\<open>saved\<close> tells whether the store takes the result; when it does not,
  the last question stays on display). An option that the question on display does not
  have cannot be submitted.
\<close>

fun firstSubmitted ::
  "Question list \<Rightarrow> bool \<Rightarrow> nat \<Rightarrow> bool \<Rightarrow> event list \<Rightarrow> (nat \<times> nat) list" where
  "firstSubmitted qs saved k answered [] = []"
| "firstSubmitted qs saved k answered (HandleOption i # es) =
     (if k < length qs \<and> i < length (options (qs ! k)) \<and> \<not> answered
      then (k, i) # firstSubmitted qs saved k True es
      else firstSubmitted qs saved k answered es)"
| "firstSubmitted qs saved k answered (Next now # es) =
     (if k + 1 < length qs then firstSubmitted qs saved (k + 1) False es
      else if saved \<and> k < length qs then []
      else firstSubmitted qs saved k answered es)"
| "firstSubmitted qs saved k answered (_ # es) = firstSubmitted qs saved k answered es"

text \<open>The number of questions whose first submitted option is the question's answer.\<close>

definition correctFirst :: "Question list \<Rightarrow> bool \<Rightarrow> nat \<Rightarrow> bool \<Rightarrow> event list \<Rightarrow> nat" where
  "correctFirst qs saved k answered es =
     length (filter (\<lambda>(k, i). int i = answerIndex (qs ! k))
       (firstSubmitted qs saved k answered es))"

text \<open>
  What holds in every state the page can be in: the batch in play is the cached one, a
  rank is kept only in \<open>Result\<close> and lies between 1 and 20, and in \<open>Setup\<close> the session
  fields have their initial values.
\<close>

definition sessionInv :: "state \<Rightarrow> bool" where
  "sessionInv st \<longleftrightarrow>
     questions st = filtered st
   \<and> (step st \<noteq> Result \<longrightarrow> rank st = None)
   \<and> (\<forall>r. rank st = Some r \<longrightarrow> 1 \<le> r \<and> r \<le> 20)
   \<and> (step st = Setup \<longrightarrow> currentIdx st = 0 \<and> score st = 0 \<and> selected st = None)"

fun isPlayEvent :: "event \<Rightarrow> bool" where
  "isPlayEvent (HandleOption i) = True"
| "isPlayEvent (Next now) = True"
| "isPlayEvent _ = False"

section \<open>Concrete inputs\<close>

text \<open>
  Small inputs on which the definitions above are evaluated: questions with a one-letter
  \<^verbatim>\<open>id\<close>, two options and a given answer index, a bank of two easy questions and one
  hard question, a player called \<^verbatim>\<open>"Ada"\<close> and a fixed time stamp.
\<close>

definition sampleQuestion :: "16 word \<Rightarrow> Difficulty \<Rightarrow> int \<Rightarrow> Question" where
  "sampleQuestion c d a =
     \<lparr>qid = [c], category = PrEP, difficulty = d, qtext = [0x51, c],
      options = [[0x59], [0x4E]], answerIndex = a, explanation = None\<rparr>"

definition sampleBank :: "Question list" where
  "sampleBank =
     [sampleQuestion 0x61 Easy 0, sampleQuestion 0x62 Hard 1, sampleQuestion 0x63 Easy 1]"

definition Ada :: jsstring where
  "Ada = [0x41, 0x64, 0x61]"

definition sampleDate :: jsstring where
  "sampleDate = [0x32, 0x30, 0x32, 0x35]"

definition sampleEntry :: "int \<Rightarrow> ScoreEntry" where
  "sampleEntry s = \<lparr>name = Ada, score = s, date = sampleDate\<rparr>"

text \<open>Every call of \<^verbatim>\<open>Math.random()\<close> returns 0, or every call returns 3/4.\<close>

definition zeros :: "nat \<Rightarrow> rat" where
  "zeros k = 0"

definition threeQuarters :: "nat \<Rightarrow> rat" where
  "threeQuarters k = 3 / 4"

text \<open>
  A game on \<open>sampleBank\<close>: the page is mounted on an empty store, Ada types her name and
  starts; she then answers the first question rightly, advances, answers the second
  question wrongly and finishes.
\<close>

definition sampleMounted :: state where
  "sampleMounted = mount sampleBank threeQuarters (Available None)"

definition sampleStarted :: state where
  "sampleStarted =
     run sampleBank [(zeros, SetPlayerName Ada), (zeros, HandleStart)] sampleMounted"

definition sampleAnswered :: state where
  "sampleAnswered = run sampleBank [(zeros, HandleOption 0)] sampleStarted"

definition samplePlay :: "((nat \<Rightarrow> rat) \<times> event) list" where
  "samplePlay =
     [(zeros, HandleOption 0), (zeros, Next sampleDate), (zeros, HandleOption 0),
      (zeros, Next sampleDate)]"

definition sampleFinished :: state where
  "sampleFinished = run sampleBank samplePlay sampleStarted"

text \<open>
  The state before the last advance of that game, on three stores: the empty one, one
  that holds three entries out of order, and one that holds twenty entries of 40 points.
\<close>

definition sampleLast :: state where
  "sampleLast = run sampleBank (take 3 samplePlay) sampleStarted"

definition sampleUnsorted :: state where
  "sampleUnsorted =
     sampleLast\<lparr>storage :=
       Available (Some (JSON [sampleEntry 10, sampleEntry 30, sampleEntry 20]))\<rparr>"

definition twentyForties :: "ScoreEntry list" where
  "twentyForties = replicate 20 (sampleEntry 40)"

definition sampleFull :: state where
  "sampleFull = sampleLast\<lparr>storage := Available (Some (JSON twentyForties))\<rparr>"

section \<open>The shuffle is a permutation\<close>

lemma randomIndex_le:
  assumes "0 \<le> r" and "r < 1"
  shows "randomIndex r i \<le> i"
proof -
  have "r * (of_nat i + 1) < of_nat i + 1"
    using assms by (simp add: mult_less_cancel_right2 add_pos_nonneg)
  then have "r * (of_nat i + 1) < of_int (int i + 1)"
    by simp
  then have "\<lfloor>r * (of_nat i + 1)\<rfloor> < int i + 1"
    by (simp only: floor_less_iff)
  then show ?thesis
    unfolding randomIndex_def by linarith
qed

lemma mset_swap_list:
  "i < length a \<Longrightarrow> j < length a \<Longrightarrow> mset (swap a i j) = mset a"
  unfolding swap_def by (simp add: mset_swap)

lemma length_swap [simp]: "length (swap a i j) = length a"
  unfolding swap_def by simp

lemma unitInterval_tail: "unitInterval random \<Longrightarrow> unitInterval (\<lambda>k. random (Suc k))"
  unfolding unitInterval_def by simp

lemma mset_shuffle_loop:
  "unitInterval random \<Longrightarrow> i < length a \<or> i = 0 \<Longrightarrow> mset (shuffle_loop random i a) = mset a"
proof (induction i arbitrary: random a)
  case 0
  then show ?case by simp
next
  case (Suc i')
  let ?j = "randomIndex (random 0) (Suc i')"
  from Suc.prems have bound: "Suc i' < length a" by simp
  from Suc.prems(1) have "?j \<le> Suc i'"
    by (simp add: randomIndex_le unitInterval_def)
  with bound have jlt: "?j < length a" by simp
  have "mset (shuffle_loop (\<lambda>k. random (Suc k)) i' (swap a (Suc i') ?j))
        = mset (swap a (Suc i') ?j)"
    using Suc.IH [of "\<lambda>k. random (Suc k)" "swap a (Suc i') ?j"] Suc.prems(1) bound
    by (simp add: unitInterval_tail)
  also have "\<dots> = mset a"
    using bound jlt by (rule mset_swap_list)
  finally show ?case by (simp add: Let_def)
qed

lemma mset_shuffle: "unitInterval random \<Longrightarrow> mset (shuffle random arr) = mset arr"
  unfolding shuffle_def by (cases arr) (simp_all add: mset_shuffle_loop)

lemma length_shuffle: "unitInterval random \<Longrightarrow> length (shuffle random arr) = length arr"
  using mset_shuffle [of random arr] by (metis size_mset)

lemma set_shuffle: "unitInterval random \<Longrightarrow> set (shuffle random arr) = set arr"
  using mset_shuffle [of random arr] by (metis set_mset_mset)


lemma unitInterval_zeros: "unitInterval zeros"
  by (simp add: unitInterval_def zeros_def)

lemma unitInterval_threeQuarters: "unitInterval threeQuarters"
  by (simp add: unitInterval_def threeQuarters_def)



section \<open>The selected batch\<close>

lemma distinct_map_shuffle:
  assumes "unitInterval random" and "distinct (map f xs)"
  shows "distinct (map f (shuffle random xs))"
proof -
  have "mset (map f (shuffle random xs)) = mset (map f xs)"
    using mset_shuffle [OF assms(1), of xs] by (metis mset_map)
  then show ?thesis
    using assms(2) by (metis mset_eq_imp_distinct_iff)
qed

text \<open>
  C5. For every bank, difficulty \<open>d\<close>, batch size \<open>n\<close> and sequence of values of
  \<^verbatim>\<open>Math.random()\<close> in \<open>[0, 1)\<close>, the batch holds only questions of the bank whose
  difficulty is \<open>d\<close>, has no id twice when the bank has none twice, and its length is
  the smaller of \<open>n\<close> and the number of questions of difficulty \<open>d\<close> in the bank.
  The selection by category and difficulty is this selection on the questions of the
  category.
\<close>

theorem selectBatch_filters_and_truncates:
  assumes "unitInterval random"
  shows "(\<forall>q \<in> set (selectBatch QUESTIONS d n random).
            Question.difficulty q = d \<and> q \<in> set QUESTIONS)
       \<and> (distinct (map qid QUESTIONS) \<longrightarrow>
            distinct (map qid (selectBatch QUESTIONS d n random)))
       \<and> length (selectBatch QUESTIONS d n random)
           = min n (length (filter (\<lambda>q. Question.difficulty q = d) QUESTIONS))
       \<and> selectBatchByCategory QUESTIONS c d n random
           = selectBatch (filter (\<lambda>q. category q = c) QUESTIONS) d n random"
proof -
  let ?pool = "filter (\<lambda>q. Question.difficulty q = d) QUESTIONS"
  have variant: "selectBatchByCategory QUESTIONS c d n random
      = selectBatch (filter (\<lambda>q. category q = c) QUESTIONS) d n random"
    by (simp add: selectBatchByCategory_def selectBatch_def conj_commute)
  have batch: "selectBatch QUESTIONS d n random = take n (shuffle random ?pool)"
    by (simp add: selectBatch_def)
  have "set (take n (shuffle random ?pool)) \<subseteq> set ?pool"
    using set_take_subset [of n "shuffle random ?pool"] set_shuffle [OF assms, of ?pool]
    by simp
  then have members: "\<forall>q \<in> set (selectBatch QUESTIONS d n random).
      Question.difficulty q = d \<and> q \<in> set QUESTIONS"
    unfolding batch by auto
  have ids: "distinct (map qid (selectBatch QUESTIONS d n random))"
    if "distinct (map qid QUESTIONS)"
  proof -
    from that have "distinct (map qid ?pool)"
      by (rule distinct_map_filter)
    then have "distinct (map qid (shuffle random ?pool))"
      using assms by (simp add: distinct_map_shuffle)
    then have "distinct (take n (map qid (shuffle random ?pool)))"
      by (rule distinct_take)
    then show ?thesis
      unfolding batch by (simp add: take_map)
  qed
  have "length (selectBatch QUESTIONS d n random) = min n (length ?pool)"
    unfolding batch using assms by (simp add: length_shuffle min.commute)
  with members ids variant show ?thesis by blast
qed

theorem selectBatch_filters_and_truncates_witness:
  "unitInterval zeros
   \<and> distinct (map qid sampleBank)
   \<and> selectBatch sampleBank Easy 10 zeros
       = [sampleQuestion 0x63 Easy 1, sampleQuestion 0x61 Easy 0]
   \<and> distinct (map qid (selectBatch sampleBank Easy 10 zeros))
   \<and> length (selectBatch sampleBank Easy 10 zeros)
       = min 10 (length (filter (\<lambda>q. Question.difficulty q = Easy) sampleBank))
   \<and> length (selectBatch sampleBank Easy 1 zeros) = 1
   \<and> selectBatchByCategory sampleBank PrEP Easy 5 zeros
       = [sampleQuestion 0x63 Easy 1, sampleQuestion 0x61 Easy 0]"
proof -
  have v: "selectBatchByCategory sampleBank PrEP Easy 5 zeros
      = [sampleQuestion 0x63 Easy 1, sampleQuestion 0x61 Easy 0]"
    by code_simp
  have d: "distinct (map qid sampleBank)"
    by code_simp
  have b: "selectBatch sampleBank Easy 10 zeros
      = [sampleQuestion 0x63 Easy 1, sampleQuestion 0x61 Easy 0]"
    by code_simp
  have n: "length (filter (\<lambda>q. Question.difficulty q = Easy) sampleBank) = 2"
    by code_simp
  show ?thesis
    using selectBatch_filters_and_truncates [OF unitInterval_zeros, of sampleBank Easy 10]
      selectBatch_filters_and_truncates [OF unitInterval_zeros, of sampleBank Easy 1]
      unitInterval_zeros d b n v
    by simp
qed

section \<open>Reading the store\<close>



section \<open>Answering and starting\<close>

text \<open>
  C7. In every state in which an option is already selected, \<open>handleOption\<close> with any
  index returns the state as it is: score, selected option, notifications and all the
  rest. The option buttons of the page do the same.
\<close>

theorem handleOption_ignored_once_selected:
  assumes "selected st \<noteq> None"
  shows "handleOption index st = Inr st
       \<and> dispatch QUESTIONS random (HandleOption i) st = st"
  using assms by (cases "current st") (auto simp: handleOption_def dispatch_def)

theorem handleOption_ignored_once_selected_witness:
  "selected sampleAnswered = Some 0
   \<and> score sampleAnswered = 10
   \<and> handleOption 1 sampleAnswered = Inr sampleAnswered
   \<and> dispatch sampleBank zeros (HandleOption 1) sampleAnswered = sampleAnswered"
proof -
  have s: "selected sampleAnswered = Some 0" and "score sampleAnswered = 10"
    by code_simp+
  moreover from s have "selected sampleAnswered \<noteq> None"
    by simp
  ultimately show ?thesis
    using handleOption_ignored_once_selected [of sampleAnswered 1 sampleBank zeros 1]
    by blast
qed

lemma trim_empty_iff: "trim s = [] \<longleftrightarrow> (\<forall>c \<in> set s. isWhiteSpace c)"
proof
  assume "trim s = []"
  then have "dropWhile isWhiteSpace (rev (dropWhile isWhiteSpace s)) = []"
    unfolding trim_def by (simp only: rev_is_Nil_conv)
  then have "\<forall>c \<in> set (rev (dropWhile isWhiteSpace s)). isWhiteSpace c"
    by (simp only: dropWhile_eq_Nil_conv)
  then have "\<forall>c \<in> set (dropWhile isWhiteSpace s). isWhiteSpace c"
    by (simp only: set_rev)
  moreover have "c \<in> set (dropWhile isWhiteSpace s)" if "c \<in> set s" "\<not> isWhiteSpace c" for c
    using that by (induction s) (auto split: if_splits)
  ultimately show "\<forall>c \<in> set s. isWhiteSpace c"
    by blast
next
  assume "\<forall>c \<in> set s. isWhiteSpace c"
  then have "dropWhile isWhiteSpace s = []"
    by (simp only: dropWhile_eq_Nil_conv)
  then show "trim s = []"
    by (simp only: trim_def rev.simps dropWhile.simps)
qed

text \<open>
  C8. When the player name consists of white space only (the empty name included),
  \<open>handleStart\<close> changes nothing but the notifications, to which it adds the request to
  enter a name: the step is still \<open>Setup\<close>. When the name has any other character, the
  step becomes \<open>Playing\<close> and nothing else changes. The start button of the setup page
  does exactly this.
\<close>

theorem handleStart_needs_a_name:
  "((\<forall>c \<in> set (playerName st). isWhiteSpace c) \<longrightarrow>
      handleStart st = st\<lparr>toasts := toasts st @ [EnterYourName]\<rparr>)
   \<and> (\<not> (\<forall>c \<in> set (playerName st). isWhiteSpace c) \<longrightarrow>
      handleStart st = st\<lparr>step := Playing\<rparr>)
   \<and> (step st = Setup \<longrightarrow> dispatch QUESTIONS random HandleStart st = handleStart st)"
proof -
  have "dispatch QUESTIONS random HandleStart st = handleStart st" if "step st = Setup"
    using that by (simp add: dispatch_def render_def handleStart_def effect_def)
  then show ?thesis
    using trim_empty_iff [of "playerName st"] by (simp add: handleStart_def)
qed

theorem handleStart_needs_a_name_witness:
  "isWhiteSpace 0x20 \<and> isWhiteSpace 0x09
   \<and> handleStart (sampleMounted\<lparr>playerName := [0x20, 0x09]\<rparr>)
       = sampleMounted\<lparr>playerName := [0x20, 0x09], toasts := [EnterYourName]\<rparr>
   \<and> Ada = [0x41, 0x64, 0x61] \<and> \<not> isWhiteSpace 0x41
   \<and> handleStart (sampleMounted\<lparr>playerName := Ada\<rparr>)
       = sampleMounted\<lparr>playerName := Ada, step := Playing\<rparr>
   \<and> step (sampleMounted\<lparr>playerName := Ada\<rparr>) = Setup
   \<and> dispatch sampleBank zeros HandleStart (sampleMounted\<lparr>playerName := Ada\<rparr>)
       = sampleMounted\<lparr>playerName := Ada, step := Playing\<rparr>"
proof -
  let ?blank = "sampleMounted\<lparr>playerName := [0x20, 0x09]\<rparr>"
  let ?ada = "sampleMounted\<lparr>playerName := Ada\<rparr>"
  have b: "\<forall>c \<in> set (playerName ?blank). isWhiteSpace c"
    by (simp add: isWhiteSpace_def)
  have a: "\<not> (\<forall>c \<in> set (playerName ?ada). isWhiteSpace c)"
    by (simp add: isWhiteSpace_def Ada_def)
  have t: "toasts sampleMounted = []" and s: "step sampleMounted = Setup"
    by (simp_all add: sampleMounted_def mount_def effect_def)
  have "handleStart ?blank = ?blank\<lparr>toasts := toasts ?blank @ [EnterYourName]\<rparr>"
    using handleStart_needs_a_name [of ?blank sampleBank zeros] b by blast
  moreover have "handleStart ?ada = ?ada\<lparr>step := Playing\<rparr>"
    and "dispatch sampleBank zeros HandleStart ?ada = handleStart ?ada"
    using handleStart_needs_a_name [of ?ada sampleBank zeros] a s by simp_all
  ultimately show ?thesis
    using s t by (simp add: isWhiteSpace_def Ada_def)
qed

section \<open>Sorting by score and finding the new entry\<close>

lemma set_insert_sorted: "set (insert_sorted c x xs) = insert x (set xs)"
  by (induction xs) auto

lemma length_insert_sorted: "length (insert_sorted c x xs) = Suc (length xs)"
  by (induction xs) auto

lemma length_js_sort: "length (js_sort c xs) = length xs"
  by (induction xs) (auto simp: length_insert_sorted)

lemma set_js_sort: "set (js_sort c xs) = set xs"
  by (induction xs) (auto simp: set_insert_sorted)

lemma map_insert_sorted:
  "map g (insert_sorted (\<lambda>a b. c (g a) (g b)) x xs) = insert_sorted c (g x) (map g xs)"
  by (induction xs) auto

lemma map_js_sort: "map g (js_sort (\<lambda>a b. c (g a) (g b)) xs) = js_sort c (map g xs)"
  by (induction xs) (auto simp: map_insert_sorted)

lemma sorted_insert_sorted:
  assumes "\<And>a b. c a b = f b - f a" and "sorted_wrt (\<lambda>a b. f b \<le> f a) xs"
  shows "sorted_wrt (\<lambda>a b. f b \<le> (f a :: int)) (insert_sorted c x xs)"
  using assms(2) by (induction xs) (auto simp: assms(1) set_insert_sorted)

lemma sorted_js_sort:
  assumes "\<And>a b. c a b = f b - f a"
  shows "sorted_wrt (\<lambda>a b. f b \<le> (f a :: int)) (js_sort c xs)"
  by (induction xs) (auto simp: sorted_insert_sorted [OF assms])

lemma insert_sorted_before:
  "c a x \<le> 0 \<Longrightarrow> insert_sorted c a (L @ x # R) = insert_sorted c a L @ x # R"
  by (induction L) auto

lemma insert_sorted_after:
  "0 < c a x \<Longrightarrow> \<forall>y \<in> set L. 0 < c a y \<Longrightarrow>
   insert_sorted c a (L @ x # R) = L @ x # insert_sorted c a R"
  by (induction L) auto

lemma filter_insert_sorted_out:
  "\<not> Q a \<Longrightarrow> filter Q (insert_sorted c a S) = filter Q S"
  by (induction S) auto

lemma insert_sorted_front:
  "\<forall>y \<in> set S. c a y \<le> 0 \<Longrightarrow> insert_sorted c a S = a # S"
  by (cases S) auto

lemma filter_insert_sorted_in:
  assumes "\<And>a b. c a b = f b - f a" and "sorted_wrt (\<lambda>a b. f b \<le> (f a :: int)) S" and "Q a"
  shows "filter Q (insert_sorted c a S) = insert_sorted c a (filter Q S)"
  using assms(2)
proof (induction S)
  case Nil
  then show ?case using assms(3) by simp
next
  case (Cons y S)
  show ?case
  proof (cases "c a y \<le> 0")
    case True
    have "\<forall>z \<in> set (filter Q (y # S)). c a z \<le> 0"
      using True Cons.prems by (auto simp: assms(1))
    then have "insert_sorted c a (filter Q (y # S)) = a # filter Q (y # S)"
      by (rule insert_sorted_front)
    then show ?thesis using True assms(3) by simp
  next
    case False
    then show ?thesis using Cons by auto
  qed
qed

lemma js_sort_snoc:
  assumes c: "\<And>a b. c a b = f b - f a"
  shows "js_sort c (xs @ [x]) =
    filter (\<lambda>y. f x \<le> f y) (js_sort c xs) @ x # filter (\<lambda>y. f y < (f x :: int)) (js_sort c xs)"
proof (induction xs)
  case Nil
  then show ?case by simp
next
  case (Cons a xs)
  let ?S = "js_sort c xs"
  let ?L = "filter (\<lambda>y. f x \<le> f y) ?S"
  let ?R = "filter (\<lambda>y. f y < f x) ?S"
  have sorted: "sorted_wrt (\<lambda>a b. f b \<le> f a) ?S"
    by (rule sorted_js_sort [OF c])
  have step: "js_sort c ((a # xs) @ [x]) = insert_sorted c a (?L @ x # ?R)"
    using Cons.IH by simp
  show ?case
  proof (cases "f x \<le> f a")
    case True
    then have "c a x \<le> 0" by (simp add: c)
    then have "insert_sorted c a (?L @ x # ?R) = insert_sorted c a ?L @ x # ?R"
      by (rule insert_sorted_before)
    moreover have "filter (\<lambda>y. f x \<le> f y) (insert_sorted c a ?S) = insert_sorted c a ?L"
      using c sorted True by (rule filter_insert_sorted_in)
    moreover have "filter (\<lambda>y. f y < f x) (insert_sorted c a ?S) = ?R"
      using True by (simp add: filter_insert_sorted_out)
    ultimately show ?thesis using step by simp
  next
    case False
    then have "0 < c a x" by (simp add: c)
    moreover have "\<forall>y \<in> set ?L. 0 < c a y"
      using False by (auto simp: c)
    ultimately have "insert_sorted c a (?L @ x # ?R) = ?L @ x # insert_sorted c a ?R"
      by (rule insert_sorted_after)
    moreover have "filter (\<lambda>y. f y < f x) (insert_sorted c a ?S) = insert_sorted c a ?R"
      using c sorted False by (intro filter_insert_sorted_in [where f = f]) auto
    moreover have "filter (\<lambda>y. f x \<le> f y) (insert_sorted c a ?S) = ?L"
      using False by (simp add: filter_insert_sorted_out)
    ultimately show ?thesis using step by simp
  qed
qed

lemma findIndex_from_none:
  "\<forall>y \<in> set xs. \<not> p y \<Longrightarrow> findIndex_from k p xs = - 1"
  by (induction xs arbitrary: k) auto

lemma findIndex_from_append:
  "\<forall>y \<in> set L. \<not> p y \<Longrightarrow> p x \<Longrightarrow> findIndex_from k p (L @ x # R) = k + int (length L)"
  by (induction L arbitrary: k) auto

lemma findIndex_take:
  assumes "\<forall>y \<in> set L. \<not> p y" and "p x"
  shows "findIndex p (take n (L @ x # R)) = (if length L < n then int (length L) else - 1)"
proof (cases "length L < n")
  case True
  then have "take n (L @ x # R) = L @ x # take (n - Suc (length L)) R"
    by (simp add: take_Cons')
  then show ?thesis
    using True assms by (simp add: findIndex_def findIndex_from_append)
next
  case False
  then have "take n (L @ x # R) = take n L" by simp
  moreover have "\<forall>y \<in> set (take n L). \<not> p y"
    using assms(1) by (meson in_set_takeD)
  ultimately show ?thesis
    using False by (simp add: findIndex_def findIndex_from_none)
qed

section \<open>Finishing a session: the leaderboard and the rank\<close>

lemma enumerate_addresses: "\<forall>y \<in> set (enumerate 1 xs). fst y \<noteq> 0"
  by (auto simp: in_set_enumerate_eq)

lemma writeLeaderboard_available:
  "writeLeaderboard list (Available raw) = Inr (Available (Some (JSON list)))"
  by (simp add: writeLeaderboard_def setItem_def)

lemma next_finish:
  fixes st :: state and now :: jsstring and parsed :: "ScoreEntry list"
  defines "e \<equiv> \<lparr>name = trim (playerName st), ScoreEntry.score = score st, date = now\<rparr>"
  defines "ahead \<equiv> filter (\<lambda>y. ScoreEntry.score e \<le> ScoreEntry.score y) (js_sort byScoreDesc parsed)"
  assumes last: "\<not> currentIdx st + 1 < length (questions st)"
    and avail: "storage st = Available raw"
    and read: "readLeaderboard (storage st) = Inr parsed"
  shows "next now st =
    Inr (st\<lparr>storage := Available (Some (JSON (take 20 (js_sort byScoreDesc (parsed @ [e]))))),
            rank := (if length ahead < 20 then Some (int (length ahead) + 1) else None),
            step := Result\<rparr>)"
proof -
  let ?c = "\<lambda>a b :: ScoreEntry obj. byScoreDesc (snd a) (snd b)"
  let ?f = "\<lambda>a :: ScoreEntry obj. ScoreEntry.score (snd a)"
  let ?objs = "js_sort ?c (enumerate 1 parsed)"
  let ?L = "filter (\<lambda>y. ?f (0, e) \<le> ?f y) ?objs"
  let ?R = "filter (\<lambda>y. ?f y < ?f (0, e)) ?objs"
  let ?updated = "take 20 (js_sort ?c (enumerate 1 parsed @ [(0, e)]))"
  have c: "?c a b = ?f b - ?f a" for a b
    by (simp add: byScoreDesc_def)
  have split: "js_sort ?c (enumerate 1 parsed @ [(0, e)]) = ?L @ (0, e) # ?R"
    using c by (rule js_sort_snoc)
  have "map snd ?updated = take 20 (js_sort byScoreDesc (map snd (enumerate 1 parsed @ [(0, e)])))"
    by (simp only: take_map [symmetric] map_js_sort [of snd byScoreDesc])
  then have persisted: "map snd ?updated = take 20 (js_sort byScoreDesc (parsed @ [e]))"
    by simp
  have "\<forall>y \<in> set ?L. fst y \<noteq> 0"
    using enumerate_addresses [of parsed] by (simp add: set_js_sort)
  then have "findIndex (\<lambda>x. fst x = 0) (take 20 (?L @ (0, e) # ?R))
      = (if length ?L < 20 then int (length ?L) else - 1)"
    by (intro findIndex_take) simp_all
  moreover have "length ?L = length ahead"
  proof -
    have "map snd ?L = filter (\<lambda>y. ScoreEntry.score e \<le> ScoreEntry.score y) (map snd ?objs)"
      by (simp add: filter_map comp_def)
    also have "map snd ?objs = js_sort byScoreDesc (map snd (enumerate 1 parsed))"
      by (rule map_js_sort [of snd byScoreDesc])
    finally have "map snd ?L = ahead"
      by (simp add: ahead_def)
    then show ?thesis
      by (metis length_map)
  qed
  ultimately have found: "findIndex (\<lambda>x. fst x = 0) ?updated
      = (if length ahead < 20 then int (length ahead) else - 1)"
    using split by simp
  show ?thesis
    unfolding next_def using last read avail persisted found
    by (simp add: Let_def writeLeaderboard_available e_def)
qed

lemma readLeaderboard_total: "\<exists>list. readLeaderboard ls = Inr list"
  by (cases ls rule: localStorage.exhaust)
    (auto simp: readLeaderboard_def try_catch_def getItem_def JSON_parse_def
      split: option.splits stored_text.splits)

lemma readLeaderboard_written:
  "readLeaderboard (Available (Some (JSON list))) = Inr list"
  by (simp add: readLeaderboard_def try_catch_def getItem_def JSON_parse_def)

lemma sorted_byScoreDesc:
  "sorted_wrt (\<lambda>a b. ScoreEntry.score b \<le> ScoreEntry.score a) (js_sort byScoreDesc xs)"
  by (rule sorted_js_sort) (simp add: byScoreDesc_def)

lemma sampleLast_facts:
  "currentIdx sampleLast = 1" "length (questions sampleLast) = 2"
  "score sampleLast = 10" "trim (playerName sampleLast) = Ada"
  "storage sampleLast = Available None"
  by code_simp+

text \<open>
  C3. Whatever the store held before (any list, sorted or not, of any length; a text that
  is not JSON; nothing), when the advance from the last question completes on a store
  that can be written, the list it has written is in non-increasing order of score and
  has at most 20 entries; the leaderboard list read from the store afterwards is the
  first 10 of them, again in non-increasing order of score.
\<close>

theorem next_persists_sorted_top20:
  assumes "\<not> currentIdx st + 1 < length (questions st)"
    and "storage st = Available raw"
  shows "\<exists>st' updated.
      next now st = Inr st'
    \<and> storage st' = Available (Some (JSON updated))
    \<and> sorted_wrt (\<lambda>a b. ScoreEntry.score b \<le> ScoreEntry.score a) updated
    \<and> length updated \<le> 20
    \<and> LeaderboardList (storage st') = Inr (take 10 updated)
    \<and> sorted_wrt (\<lambda>a b. ScoreEntry.score b \<le> ScoreEntry.score a) (take 10 updated)"
proof -
  obtain parsed where read: "readLeaderboard (storage st) = Inr parsed"
    using readLeaderboard_total by blast
  let ?e = "\<lparr>name = trim (playerName st), ScoreEntry.score = score st, date = now\<rparr>"
  let ?updated = "take 20 (js_sort byScoreDesc (parsed @ [?e]))"
  have sorted: "sorted_wrt (\<lambda>a b. ScoreEntry.score b \<le> ScoreEntry.score a) ?updated"
    by (intro sorted_wrt_take sorted_byScoreDesc)
  then have "sorted_wrt (\<lambda>a b. ScoreEntry.score b \<le> ScoreEntry.score a) (take 10 ?updated)"
    by (rule sorted_wrt_take)
  moreover have "length ?updated \<le> 20"
    by simp
  moreover have "LeaderboardList (Available (Some (JSON ?updated))) = Inr (take 10 ?updated)"
    by (simp only: LeaderboardList_def readLeaderboard_written sum.case)
  ultimately show ?thesis
    using next_finish [OF assms read, of now] sorted by simp
qed

theorem next_persists_sorted_top20_witness:
  "currentIdx sampleUnsorted + 1 = length (questions sampleUnsorted)
   \<and> storage sampleUnsorted
       = Available (Some (JSON [sampleEntry 10, sampleEntry 30, sampleEntry 20]))
   \<and> (\<exists>st'. next sampleDate sampleUnsorted = Inr st'
         \<and> storage st' = Available (Some (JSON
              [sampleEntry 30, sampleEntry 20, sampleEntry 10, sampleEntry 10]))
         \<and> LeaderboardList (storage st') = Inr
              [sampleEntry 30, sampleEntry 20, sampleEntry 10, sampleEntry 10])"
proof -
  let ?prior = "[sampleEntry 10, sampleEntry 30, sampleEntry 20]"
  let ?after = "[sampleEntry 30, sampleEntry 20, sampleEntry 10, sampleEntry 10]"
  have idx: "currentIdx sampleUnsorted + 1 = length (questions sampleUnsorted)"
    by (simp add: sampleUnsorted_def sampleLast_facts)
  then have last: "\<not> currentIdx sampleUnsorted + 1 < length (questions sampleUnsorted)"
    by simp
  have sto: "storage sampleUnsorted = Available (Some (JSON ?prior))"
    by (simp add: sampleUnsorted_def)
  have run: "next sampleDate sampleUnsorted
      = Inr (sampleUnsorted\<lparr>storage := Available (Some (JSON ?after)), rank := Some 4,
                             step := Result\<rparr>)"
    by code_simp
  obtain st' updated where
    "next sampleDate sampleUnsorted = Inr st'"
    "storage st' = Available (Some (JSON updated))"
    "LeaderboardList (storage st') = Inr (take 10 updated)"
    using next_persists_sorted_top20 [OF last sto, of sampleDate] by blast
  with run have "next sampleDate sampleUnsorted = Inr st'"
    "storage st' = Available (Some (JSON ?after))"
    "LeaderboardList (storage st') = Inr ?after"
    by auto
  with idx sto show ?thesis by blast
qed

text \<open>
  C4. Let \<open>ahead\<close> be the entries read from the store whose score is at least the new
  entry's, in sorted order, and \<open>behind\<close> the others. The advance from the last question
  writes the first 20 of \<open>ahead\<close>, the new entry, \<open>behind\<close>, and moves to \<open>Result\<close>.
  When fewer than 20 entries are ahead, the rank is their number plus one, which is the
  1-based position of the new entry in the written list; when 20 or more are ahead, the
  new entry is not in the written list and the rank is none (not 0), without any error.
\<close>

theorem next_rank_is_position:
  fixes st :: state and now :: jsstring and parsed :: "ScoreEntry list"
  defines "e \<equiv> \<lparr>name = trim (playerName st), ScoreEntry.score = score st, date = now\<rparr>"
  defines "ahead \<equiv> filter (\<lambda>y. ScoreEntry.score e \<le> ScoreEntry.score y) (js_sort byScoreDesc parsed)"
  defines "behind \<equiv> filter (\<lambda>y. ScoreEntry.score y < ScoreEntry.score e) (js_sort byScoreDesc parsed)"
  assumes "\<not> currentIdx st + 1 < length (questions st)"
    and "storage st = Available raw"
    and "readLeaderboard (storage st) = Inr parsed"
  shows "\<exists>st'.
      next now st = Inr st'
    \<and> step st' = Result
    \<and> storage st' = Available (Some (JSON (take 20 (ahead @ e # behind))))
    \<and> (length ahead < 20 \<longrightarrow>
         rank st' = Some (int (length ahead) + 1)
       \<and> take 20 (ahead @ e # behind) ! length ahead = e)
    \<and> (20 \<le> length ahead \<longrightarrow>
         rank st' = None \<and> take 20 (ahead @ e # behind) = take 20 ahead)"
proof -
  have "js_sort byScoreDesc (parsed @ [e]) = ahead @ e # behind"
    unfolding ahead_def behind_def by (rule js_sort_snoc) (simp add: byScoreDesc_def)
  moreover have "take 20 (ahead @ e # behind) ! length ahead = e" if "length ahead < 20"
    using that by (simp add: nth_append)
  ultimately show ?thesis
    using next_finish [OF assms(4-6), of now] by (simp add: e_def ahead_def)
qed

theorem next_rank_is_position_witness:
  "(\<exists>st'. next sampleDate sampleUnsorted = Inr st'
      \<and> storage st' = Available (Some (JSON
           [sampleEntry 30, sampleEntry 20, sampleEntry 10, sampleEntry 10]))
      \<and> rank st' = Some 4)
   \<and> (\<exists>st'. next sampleDate sampleFull = Inr st'
      \<and> storage st' = Available (Some (JSON twentyForties))
      \<and> rank st' = None \<and> step st' = Result)"
proof -
  let ?prior = "[sampleEntry 10, sampleEntry 30, sampleEntry 20]"
  let ?after = "[sampleEntry 30, sampleEntry 20, sampleEntry 10, sampleEntry 10]"
  have last: "\<not> currentIdx sampleUnsorted + 1 < length (questions sampleUnsorted)"
    "\<not> currentIdx sampleFull + 1 < length (questions sampleFull)"
    by (simp_all add: sampleUnsorted_def sampleFull_def sampleLast_facts)
  have sto: "storage sampleUnsorted = Available (Some (JSON ?prior))"
    "storage sampleFull = Available (Some (JSON twentyForties))"
    by (simp_all add: sampleUnsorted_def sampleFull_def)
  have read: "readLeaderboard (storage sampleUnsorted) = Inr ?prior"
    "readLeaderboard (storage sampleFull) = Inr twentyForties"
    by (simp_all only: sto readLeaderboard_written)
  have run: "next sampleDate sampleUnsorted
      = Inr (sampleUnsorted\<lparr>storage := Available (Some (JSON ?after)), rank := Some 4,
                             step := Result\<rparr>)"
    "next sampleDate sampleFull = Inr (sampleFull\<lparr>rank := None, step := Result\<rparr>)"
    by code_simp+
  obtain st1 where "next sampleDate sampleUnsorted = Inr st1"
    using next_rank_is_position [OF last(1) sto(1) read(1), of sampleDate] by blast
  with run(1) have first: "next sampleDate sampleUnsorted = Inr st1"
    "storage st1 = Available (Some (JSON ?after))" "rank st1 = Some 4"
    by auto
  obtain st2 where "next sampleDate sampleFull = Inr st2" "step st2 = Result"
    using next_rank_is_position [OF last(2) sto(2) read(2), of sampleDate] by blast
  with run(2) sto(2) have second: "next sampleDate sampleFull = Inr st2"
    "storage st2 = Available (Some (JSON twentyForties))" "rank st2 = None" "step st2 = Result"
    by auto
  from first second show ?thesis by blast
qed

section \<open>What holds in every state of the page\<close>

lemma render_unchanged:
  "difficulty new = difficulty old \<Longrightarrow> step new = step old \<Longrightarrow> render Q r old new = new"
  by (simp add: render_def)

lemma render_step_changed:
  "difficulty new = difficulty old \<Longrightarrow> step new \<noteq> step old \<Longrightarrow> step new \<noteq> Setup \<Longrightarrow>
   render Q r old new = new"
  by (simp add: render_def effect_def)

lemma next_unavailable:
  "\<not> currentIdx st + 1 < length (questions st) \<Longrightarrow> storage st = Unavailable \<Longrightarrow>
   next now st = Inl StorageError"
  by (simp add: next_def readLeaderboard_def try_catch_def getItem_def writeLeaderboard_def
      setItem_def Let_def)

lemma next_cases:
  assumes "next now st = Inr st'"
  shows "(currentIdx st + 1 < length (questions st)
          \<and> st' = st\<lparr>currentIdx := currentIdx st + 1, selected := None\<rparr>)
       \<or> (\<not> currentIdx st + 1 < length (questions st)
          \<and> (\<exists>ls r. st' = st\<lparr>storage := ls, rank := r, step := Result\<rparr>
                \<and> ls \<noteq> Unavailable \<and> storage st \<noteq> Unavailable
                \<and> (\<forall>k. r = Some k \<longrightarrow> 1 \<le> k \<and> k \<le> 20)))"
proof (cases "currentIdx st + 1 < length (questions st)")
  case True
  with assms show ?thesis by (simp add: next_def)
next
  case False
  show ?thesis
  proof (cases "storage st")
    case Unavailable
    with False assms show ?thesis by (simp add: next_unavailable)
  next
    case (Available raw)
    obtain parsed where read: "readLeaderboard (storage st) = Inr parsed"
      using readLeaderboard_total by blast
    define e where "e = \<lparr>name = trim (playerName st), ScoreEntry.score = score st, date = now\<rparr>"
    define n where
      "n = length (filter (\<lambda>y. ScoreEntry.score e \<le> ScoreEntry.score y) (js_sort byScoreDesc parsed))"
    define r where "r = (if n < 20 then Some (int n + 1) else None)"
    define ls where
      "ls = Available (Some (JSON (take 20 (js_sort byScoreDesc (parsed @ [e])))))"
    have "next now st = Inr (st\<lparr>storage := ls, rank := r, step := Result\<rparr>)"
      using next_finish [OF False Available read, of now]
      by (simp only: e_def n_def r_def ls_def)
    with assms have "st' = st\<lparr>storage := ls, rank := r, step := Result\<rparr>"
      by simp
    moreover have "\<forall>k. r = Some k \<longrightarrow> 1 \<le> k \<and> k \<le> 20"
      by (auto simp: r_def)
    moreover have "ls \<noteq> Unavailable" "storage st \<noteq> Unavailable"
      using Available by (simp_all add: ls_def)
    ultimately show ?thesis
      using False by blast
  qed
qed

lemma dispatch_preserves_inv:
  assumes "sessionInv st"
  shows "sessionInv (dispatch Q r ev st)"
proof (cases ev)
  case (SetPlayerName s)
  with assms show ?thesis
    by (auto simp: dispatch_def render_def effect_def sessionInv_def)
next
  case (SetDifficulty d)
  with assms show ?thesis
    by (auto simp: dispatch_def render_def effect_def sessionInv_def Let_def)
next
  case HandleStart
  with assms show ?thesis
    by (auto simp: dispatch_def render_def effect_def sessionInv_def handleStart_def)
next
  case (HandleOption i)
  with assms show ?thesis
    by (auto simp: dispatch_def render_def effect_def sessionInv_def handleOption_def Let_def
        split: option.splits)
next
  case (Next now)
  show ?thesis
  proof (cases "step st = Playing \<and> current st \<noteq> None")
    case False
    with Next assms show ?thesis by (auto simp: dispatch_def)
  next
    case True
    show ?thesis
    proof (cases "next now st")
      case (Inl e)
      with Next True assms show ?thesis by (simp add: dispatch_def)
    next
      case (Inr st')
      from next_cases [OF Inr] show ?thesis
      proof (elim disjE conjE exE)
        assume "st' = st\<lparr>currentIdx := currentIdx st + 1, selected := None\<rparr>"
        with Next True Inr assms show ?thesis
          by (auto simp: dispatch_def render_def sessionInv_def)
      next
        fix ls r
        assume "st' = st\<lparr>storage := ls, rank := r, step := Result\<rparr>"
          and "\<forall>k. r = Some k \<longrightarrow> 1 \<le> k \<and> k \<le> 20"
        with Next True Inr assms show ?thesis
          by (auto simp: dispatch_def render_def effect_def sessionInv_def)
      qed
    qed
  qed
next
  case Restart
  with assms show ?thesis
    by (auto simp: dispatch_def render_def effect_def sessionInv_def restart_def)
qed

lemma mount_inv: "sessionInv (mount Q r ls)"
  by (simp add: mount_def effect_def sessionInv_def)

lemma reachable_inv: "reachable Q st \<Longrightarrow> sessionInv st"
  by (induction rule: reachable.induct) (simp_all add: mount_inv dispatch_preserves_inv)

lemma reachable_run:
  "reachable Q st \<Longrightarrow> \<forall>x \<in> set es. unitInterval (fst x) \<Longrightarrow> reachable Q (run Q es st)"
proof (induction es arbitrary: st)
  case Nil
  then show ?case by simp
next
  case (Cons x es)
  obtain r ev where x: "x = (r, ev)" by (cases x)
  with Cons.prems have "reachable Q (dispatch Q r ev st)"
    by (simp add: reachable_dispatch)
  with Cons x show ?case by simp
qed

lemma sample_reachable:
  "reachable sampleBank sampleMounted" "reachable sampleBank sampleStarted"
  "reachable sampleBank sampleFinished"
proof -
  show m: "reachable sampleBank sampleMounted"
    unfolding sampleMounted_def by (rule reachable_mount) (rule unitInterval_threeQuarters)
  show s: "reachable sampleBank sampleStarted"
    unfolding sampleStarted_def using m by (rule reachable_run) (simp add: unitInterval_zeros)
  show "reachable sampleBank sampleFinished"
    unfolding sampleFinished_def samplePlay_def using s
    by (rule reachable_run) (simp add: unitInterval_zeros)
qed

lemma sampleFinished_facts:
  "step sampleFinished = Result" "rank sampleFinished = Some 1" "score sampleFinished = 10"
  "currentIdx sampleFinished = 1" "selected sampleFinished = Some 0"
  "questions sampleFinished = [sampleQuestion 0x61 Easy 0, sampleQuestion 0x63 Easy 1]"
  "difficulty sampleFinished = Easy"
  by code_simp+

text \<open>
  C10. In every state the page can reach, the rank is none unless the step is \<open>Result\<close>,
  and a rank that is present is an integer from 1 to 20 (never 0); in \<open>Setup\<close>, which is
  entered at mount and by restart, the rank is none and the index, the score and the
  selected option have their initial values.
\<close>

theorem rank_kept_only_in_result:
  assumes "reachable QUESTIONS st"
  shows "(step st \<noteq> Result \<longrightarrow> rank st = None)
       \<and> (\<forall>r. rank st = Some r \<longrightarrow> 1 \<le> r \<and> r \<le> 20)
       \<and> (step st = Setup \<longrightarrow>
            rank st = None \<and> currentIdx st = 0 \<and> score st = 0 \<and> selected st = None)"
  using reachable_inv [OF assms] by (auto simp: sessionInv_def)

theorem rank_kept_only_in_result_witness:
  "reachable sampleBank sampleFinished
   \<and> step sampleFinished = Result \<and> rank sampleFinished = Some 1
   \<and> reachable sampleBank sampleStarted
   \<and> step sampleStarted = Playing \<and> rank sampleStarted = None
   \<and> reachable sampleBank sampleMounted
   \<and> step sampleMounted = Setup \<and> rank sampleMounted = None \<and> score sampleMounted = 0"
proof -
  have "step sampleStarted = Playing" "step sampleMounted = Setup"
    by code_simp+
  then show ?thesis
    using rank_kept_only_in_result [OF sample_reachable(1)]
      rank_kept_only_in_result [OF sample_reachable(2)]
      rank_kept_only_in_result [OF sample_reachable(3)]
      sample_reachable sampleFinished_facts
    by simp
qed

section \<open>Restart\<close>

lemma filtered_render:
  "filtered (render Q r old new) =
     (if difficulty new \<noteq> difficulty old then selectBatch Q (difficulty new) 10 r
      else filtered new)"
  by (simp add: render_def effect_def Let_def)

lemma handleOption_keeps_selection:
  "handleOption i st = Inr st' \<Longrightarrow> difficulty st' = difficulty st \<and> filtered st' = filtered st"
  by (auto simp: handleOption_def Let_def split: if_splits option.splits)

lemma next_keeps_selection:
  "next now st = Inr st' \<Longrightarrow> difficulty st' = difficulty st \<and> filtered st' = filtered st"
  using next_cases [of now st st'] by auto

lemma filtered_dispatch:
  "filtered (dispatch Q r ev st) =
     (case ev of
        SetDifficulty d \<Rightarrow>
          if step st = Setup \<and> d \<noteq> difficulty st then selectBatch Q d 10 r else filtered st
      | _ \<Rightarrow> filtered st)"
proof (cases ev)
  case (HandleOption i)
  then show ?thesis
    by (auto simp: dispatch_def filtered_render dest: handleOption_keeps_selection
        split: option.splits sum.splits)
next
  case (Next now)
  then show ?thesis
    by (auto simp: dispatch_def filtered_render dest: next_keeps_selection split: sum.splits)
qed (simp_all add: dispatch_def filtered_render handleStart_def restart_def)

text \<open>
  C1, as the code has it. From every reachable state in \<open>Result\<close>, restart leads to
  \<open>Setup\<close> with index 0, score 0, no selected option and no rank, whatever
  \<^verbatim>\<open>Math.random()\<close> would return: the batch and the cached selection are the ones of
  the session that has just ended, in the same order. No new batch is drawn: the only
  event that draws one is a change of the difficulty in \<open>Setup\<close>.
\<close>

theorem restart_resets_and_keeps_batch:
  assumes "reachable QUESTIONS st" and "step st = Result"
  shows "dispatch QUESTIONS random Restart st
           = st\<lparr>step := Setup, currentIdx := 0, score := 0, selected := None, rank := None\<rparr>
       \<and> questions (dispatch QUESTIONS random Restart st) = questions st
       \<and> filtered (dispatch QUESTIONS random Restart st) = filtered st
       \<and> (\<forall>ev st0. filtered (dispatch QUESTIONS random ev st0) =
            (case ev of
               SetDifficulty d \<Rightarrow>
                 if step st0 = Setup \<and> d \<noteq> difficulty st0
                 then selectBatch QUESTIONS d 10 random else filtered st0
             | _ \<Rightarrow> filtered st0))"
proof -
  have "questions st = filtered st"
    using reachable_inv [OF assms(1)] by (simp add: sessionInv_def)
  then have "dispatch QUESTIONS random Restart st
      = st\<lparr>step := Setup, currentIdx := 0, score := 0, selected := None, rank := None\<rparr>"
    using assms(2) by (cases st) (simp add: dispatch_def restart_def render_def effect_def)
  then show ?thesis by (simp add: filtered_dispatch)
qed

theorem restart_resets_and_keeps_batch_witness:
  "reachable sampleBank sampleFinished \<and> step sampleFinished = Result
   \<and> score sampleFinished = 10 \<and> currentIdx sampleFinished = 1
   \<and> selected sampleFinished = Some 0 \<and> rank sampleFinished = Some 1
   \<and> dispatch sampleBank zeros Restart sampleFinished
       = sampleFinished\<lparr>step := Setup, currentIdx := 0, score := 0, selected := None,
                        rank := None\<rparr>
   \<and> questions (dispatch sampleBank zeros Restart sampleFinished)
       = [sampleQuestion 0x61 Easy 0, sampleQuestion 0x63 Easy 1]
   \<and> filtered (dispatch sampleBank zeros (SetDifficulty Hard) sampleMounted)
       = [sampleQuestion 0x62 Hard 1]"
proof -
  have "step sampleMounted = Setup" "difficulty sampleMounted = Easy"
    "selectBatch sampleBank Hard 10 zeros = [sampleQuestion 0x62 Hard 1]"
    by code_simp+
  then show ?thesis
    using restart_resets_and_keeps_batch
      [OF sample_reachable(3) sampleFinished_facts(1), of zeros]
      sample_reachable(3) sampleFinished_facts
    by simp
qed

text \<open>
  C1, as the specification states it, fails. After the sample game, a new draw with
  \<^verbatim>\<open>Math.random()\<close> returning 0 would give the two easy questions in the other order;
  restart keeps the order of the finished session.
\<close>

theorem restart_draws_fresh_batch_counterexample:
  "step sampleFinished = Result
   \<and> questions (dispatch sampleBank zeros Restart sampleFinished)
       = [sampleQuestion 0x61 Easy 0, sampleQuestion 0x63 Easy 1]
   \<and> selectBatch sampleBank (difficulty sampleFinished) 10 zeros
       = [sampleQuestion 0x63 Easy 1, sampleQuestion 0x61 Easy 0]
   \<and> questions (dispatch sampleBank zeros Restart sampleFinished)
       \<noteq> selectBatch sampleBank (difficulty sampleFinished) 10 zeros"
  by code_simp

section \<open>The score of a session\<close>

lemma DIFFICULTY_POINTS_pos: "0 < DIFFICULTY_POINTS d"
  by (cases d) simp_all

lemma dispatch_option_accepted:
  assumes "step st = Playing" and "currentIdx st < length (questions st)"
    and "i < length (options (questions st ! currentIdx st))" and "selected st = None"
  shows "dispatch Q r (HandleOption i) st =
    (if int i = answerIndex (questions st ! currentIdx st)
     then st\<lparr>selected := Some (int i),
             score := score st + DIFFICULTY_POINTS (difficulty st),
             toasts := toasts st @ [Correct (explanation (questions st ! currentIdx st))]\<rparr>
     else st\<lparr>selected := Some (int i),
             toasts := toasts st @ [NotQuite (explanation (questions st ! currentIdx st))]\<rparr>)"
  using assms by (simp add: dispatch_def current_def handleOption_def render_def Let_def)

lemma dispatch_option_refused:
  assumes "\<not> (step st = Playing \<and> currentIdx st < length (questions st)
      \<and> i < length (options (questions st ! currentIdx st)) \<and> selected st = None)"
  shows "dispatch Q r (HandleOption i) st = st"
  using assms by (auto simp: dispatch_def current_def split: option.splits)

lemma dispatch_next_refused:
  assumes "\<not> (step st = Playing \<and> currentIdx st < length (questions st))"
  shows "dispatch Q r (Next now) st = st"
  using assms by (auto simp: dispatch_def current_def)

lemma dispatch_next_advances:
  assumes "step st = Playing" and "currentIdx st + 1 < length (questions st)"
  shows "dispatch Q r (Next now) st = st\<lparr>currentIdx := currentIdx st + 1, selected := None\<rparr>"
  using assms by (simp add: dispatch_def current_def next_def render_def)

lemma dispatch_next_not_saved:
  assumes "\<not> currentIdx st + 1 < length (questions st)" and "storage st = Unavailable"
  shows "dispatch Q r (Next now) st = st"
  using assms by (simp add: dispatch_def next_unavailable)

lemma dispatch_next_finishes:
  assumes "step st = Playing" and "currentIdx st < length (questions st)"
    and "\<not> currentIdx st + 1 < length (questions st)" and "storage st \<noteq> Unavailable"
  shows "step (dispatch Q r (Next now) st) = Result
       \<and> score (dispatch Q r (Next now) st) = score st"
proof -
  obtain raw where avail: "storage st = Available raw"
    using assms(4) by (cases "storage st") simp_all
  obtain parsed where read: "readLeaderboard (storage st) = Inr parsed"
    using readLeaderboard_total by blast
  show ?thesis
    using next_finish [OF assms(3) avail read, of now] assms(1,2)
    by (simp add: dispatch_def current_def render_def effect_def)
qed

lemma run_after_result:
  "step st = Result \<Longrightarrow> \<forall>x \<in> set es. isPlayEvent (snd x) \<Longrightarrow> run Q es st = st"
proof (induction es)
  case Nil
  then show ?case by simp
next
  case (Cons x es)
  obtain r ev where x: "x = (r, ev)" by (cases x)
  with Cons.prems have "dispatch Q r ev st = st"
    by (cases ev) (simp_all add: dispatch_option_refused dispatch_next_refused)
  with Cons x show ?case by simp
qed

lemma score_dispatch_mono:
  assumes "isPlayEvent ev"
  shows "score st \<le> score (dispatch Q r ev st)"
proof (cases ev)
  case (HandleOption i)
  show ?thesis
  proof (cases "step st = Playing \<and> currentIdx st < length (questions st)
      \<and> i < length (options (questions st ! currentIdx st)) \<and> selected st = None")
    case True
    then show ?thesis
      using DIFFICULTY_POINTS_pos [of "difficulty st"]
      by (simp add: HandleOption dispatch_option_accepted less_imp_le)
  next
    case False
    then show ?thesis by (simp add: HandleOption dispatch_option_refused)
  qed
next
  case (Next now)
  consider "\<not> (step st = Playing \<and> currentIdx st < length (questions st))"
    | "step st = Playing" "currentIdx st + 1 < length (questions st)"
    | "\<not> currentIdx st + 1 < length (questions st)" "storage st = Unavailable"
    | "step st = Playing" "currentIdx st < length (questions st)"
      "\<not> currentIdx st + 1 < length (questions st)" "storage st \<noteq> Unavailable"
    by linarith
  then show ?thesis
  proof cases
    case 1
    then show ?thesis by (simp add: Next dispatch_next_refused)
  next
    case 2
    then show ?thesis by (simp add: Next dispatch_next_advances)
  next
    case 3
    then show ?thesis by (simp add: Next dispatch_next_not_saved)
  next
    case 4
    then show ?thesis by (simp add: Next dispatch_next_finishes)
  qed
qed (use assms in simp_all)

lemma score_run_mono:
  "\<forall>x \<in> set es. isPlayEvent (snd x) \<Longrightarrow> score st \<le> score (run Q es st)"
proof (induction es arbitrary: st)
  case Nil
  then show ?case by simp
next
  case (Cons x es)
  obtain r ev where x: "x = (r, ev)" by (cases x)
  have "score st \<le> score (dispatch Q r ev st)"
    using Cons.prems x by (simp add: score_dispatch_mono)
  also have "\<dots> \<le> score (run Q es (dispatch Q r ev st))"
    using Cons.prems by (intro Cons.IH) simp
  finally show ?case by (simp add: x)
qed

lemma run_append: "run Q (xs @ ys) st = run Q ys (run Q xs st)"
  by (induction xs arbitrary: st) auto

lemma score_run:
  assumes "step st = Playing" and "\<forall>x \<in> set es. isPlayEvent (snd x)"
  shows "score (run Q es st) = score st + DIFFICULTY_POINTS (difficulty st) *
    int (correctFirst (questions st) (storage st \<noteq> Unavailable) (currentIdx st)
          (selected st \<noteq> None) (map snd es))"
  using assms
proof (induction es arbitrary: st)
  case Nil
  then show ?case by (simp add: correctFirst_def)
next
  case (Cons x es)
  obtain r ev where x: "x = (r, ev)" by (cases x)
  let ?qs = "questions st" and ?k = "currentIdx st"
  from Cons.prems x have play: "isPlayEvent ev" and rest: "\<forall>x \<in> set es. isPlayEvent (snd x)"
    by simp_all
  note IH = Cons.IH [OF _ rest]
  show ?case
  proof (cases ev)
    case (HandleOption i)
    show ?thesis
    proof (cases "?k < length ?qs \<and> i < length (options (?qs ! ?k)) \<and> selected st = None")
      case True
      let ?st1 = "dispatch Q r (HandleOption i) st"
      have st1: "step ?st1 = Playing" "questions ?st1 = ?qs" "currentIdx ?st1 = ?k"
        "selected ?st1 \<noteq> None" "storage ?st1 = storage st" "difficulty ?st1 = difficulty st"
        "score ?st1 = score st
           + (if int i = answerIndex (?qs ! ?k) then DIFFICULTY_POINTS (difficulty st) else 0)"
        using True Cons.prems(1) by (simp_all add: dispatch_option_accepted)
      have "correctFirst ?qs (storage st \<noteq> Unavailable) ?k (selected st \<noteq> None)
              (map snd (x # es))
          = (if int i = answerIndex (?qs ! ?k) then 1 else 0)
            + correctFirst ?qs (storage st \<noteq> Unavailable) ?k True (map snd es)"
        using True by (simp add: x HandleOption correctFirst_def)
      then show ?thesis
        using IH [of ?st1] st1 by (simp add: x HandleOption algebra_simps)
    next
      case False
      then have "dispatch Q r (HandleOption i) st = st"
        by (simp add: dispatch_option_refused)
      moreover have "correctFirst ?qs (storage st \<noteq> Unavailable) ?k (selected st \<noteq> None)
              (map snd (x # es))
          = correctFirst ?qs (storage st \<noteq> Unavailable) ?k (selected st \<noteq> None) (map snd es)"
        using False by (auto simp: x HandleOption correctFirst_def)
      ultimately show ?thesis
        using IH [of st] Cons.prems(1) by (simp add: x HandleOption)
    qed
  next
    case (Next now)
    consider (advance) "?k + 1 < length ?qs"
      | (finish) "\<not> ?k + 1 < length ?qs" "?k < length ?qs" "storage st \<noteq> Unavailable"
      | (stay) "\<not> ?k + 1 < length ?qs" "\<not> (?k < length ?qs \<and> storage st \<noteq> Unavailable)"
      by blast
    then show ?thesis
    proof cases
      case advance
      let ?st1 = "st\<lparr>currentIdx := ?k + 1, selected := None\<rparr>"
      have "dispatch Q r (Next now) st = ?st1"
        using advance Cons.prems(1) by (simp add: dispatch_next_advances)
      moreover have "correctFirst ?qs (storage st \<noteq> Unavailable) ?k (selected st \<noteq> None)
              (map snd (x # es))
          = correctFirst ?qs (storage st \<noteq> Unavailable) (?k + 1) False (map snd es)"
        using advance by (simp add: x Next correctFirst_def)
      ultimately show ?thesis
        using IH [of ?st1] Cons.prems(1) by (simp add: x Next)
    next
      case finish
      let ?st1 = "dispatch Q r (Next now) st"
      have "step ?st1 = Result" "score ?st1 = score st"
        using finish Cons.prems(1) by (simp_all add: dispatch_next_finishes)
      then have "score (run Q es ?st1) = score st"
        using rest by (simp add: run_after_result)
      moreover have "correctFirst ?qs (storage st \<noteq> Unavailable) ?k (selected st \<noteq> None)
              (map snd (x # es)) = 0"
        using finish by (simp add: x Next correctFirst_def)
      ultimately show ?thesis
        by (simp add: x Next)
    next
      case stay
      then have "dispatch Q r (Next now) st = st"
        by (cases "?k < length ?qs")
          (simp_all add: dispatch_next_not_saved dispatch_next_refused)
      moreover have "correctFirst ?qs (storage st \<noteq> Unavailable) ?k (selected st \<noteq> None)
              (map snd (x # es))
          = correctFirst ?qs (storage st \<noteq> Unavailable) ?k (selected st \<noteq> None) (map snd es)"
        using stay by (auto simp: x Next correctFirst_def)
      ultimately show ?thesis
        using IH [of st] Cons.prems(1) by (simp add: x Next)
    qed
  qed (use play in simp_all)
qed

lemma sampleStarted_facts:
  "step sampleStarted = Playing" "currentIdx sampleStarted = 0" "selected sampleStarted = None"
  "score sampleStarted = 0" "difficulty sampleStarted = Easy"
  "storage sampleStarted = Available None"
  "correctFirst (questions sampleStarted) True 0 False (map snd samplePlay) = 1"
  by code_simp+

text \<open>
  C2. Take a session at its start (step \<open>Playing\<close>, first question, nothing selected,
  score 0) and any sequence of option clicks and advances. After every prefix of the
  sequence the score is the points of the session's difficulty (10, 20 or 30) times the
  number of questions whose first submitted option is the answer; and the score never
  decreases from one prefix to a longer one.
\<close>

theorem score_counts_first_correct_answers:
  assumes "step st = Playing" and "currentIdx st = 0" and "selected st = None"
    and "score st = 0" and "\<forall>x \<in> set es. isPlayEvent (snd x)"
  shows "DIFFICULTY_POINTS Easy = 10 \<and> DIFFICULTY_POINTS Medium = 20
       \<and> DIFFICULTY_POINTS Hard = 30
       \<and> (\<forall>n. score (run QUESTIONS (take n es) st)
            = DIFFICULTY_POINTS (difficulty st) *
              int (correctFirst (questions st) (storage st \<noteq> Unavailable) 0 False
                    (map snd (take n es))))
       \<and> (\<forall>m n. m \<le> n \<longrightarrow>
            score (run QUESTIONS (take m es) st) \<le> score (run QUESTIONS (take n es) st))"
proof (intro conjI allI impI)
  show "DIFFICULTY_POINTS Easy = 10" "DIFFICULTY_POINTS Medium = 20"
    "DIFFICULTY_POINTS Hard = 30"
    by simp_all
next
  fix n
  have "\<forall>x \<in> set (take n es). isPlayEvent (snd x)"
    using assms(5) by (meson in_set_takeD)
  from score_run [OF assms(1) this, of QUESTIONS] show
    "score (run QUESTIONS (take n es) st)
      = DIFFICULTY_POINTS (difficulty st) *
        int (correctFirst (questions st) (storage st \<noteq> Unavailable) 0 False
              (map snd (take n es)))"
    using assms(2-4) by simp
next
  fix m n :: nat
  assume "m \<le> n"
  then have "take n es = take m es @ take (n - m) (drop m es)"
    by (metis le_add_diff_inverse take_add)
  moreover have "\<forall>x \<in> set (take (n - m) (drop m es)). isPlayEvent (snd x)"
    using assms(5) by (meson in_set_dropD in_set_takeD)
  ultimately show "score (run QUESTIONS (take m es) st) \<le> score (run QUESTIONS (take n es) st)"
    by (simp add: run_append score_run_mono)
qed

theorem score_counts_first_correct_answers_witness:
  "step sampleStarted = Playing \<and> currentIdx sampleStarted = 0
   \<and> selected sampleStarted = None \<and> score sampleStarted = 0
   \<and> list_all (\<lambda>x. isPlayEvent (snd x)) samplePlay
   \<and> correctFirst (questions sampleStarted) True 0 False (map snd samplePlay) = 1
   \<and> score (run sampleBank samplePlay sampleStarted) = 10
   \<and> score (run sampleBank (take 1 samplePlay) sampleStarted)
       \<le> score (run sampleBank (take 4 samplePlay) sampleStarted)"
proof -
  have play: "\<forall>x \<in> set samplePlay. isPlayEvent (snd x)"
    by (simp add: samplePlay_def)
  have whole: "take 4 samplePlay = samplePlay"
    by (simp add: samplePlay_def)
  note th = score_counts_first_correct_answers
    [OF sampleStarted_facts(1-4) play, of sampleBank]
  from th have "score (run sampleBank (take 4 samplePlay) sampleStarted)
      = DIFFICULTY_POINTS (difficulty sampleStarted) *
        int (correctFirst (questions sampleStarted) (storage sampleStarted \<noteq> Unavailable) 0 False
              (map snd (take 4 samplePlay)))"
    by blast
  then have total: "score (run sampleBank samplePlay sampleStarted) = 10"
    by (simp add: whole sampleStarted_facts)
  from th have "\<forall>m n. m \<le> n \<longrightarrow>
      score (run sampleBank (take m samplePlay) sampleStarted)
        \<le> score (run sampleBank (take n samplePlay) sampleStarted)"
    by blast
  then have "(1::nat) \<le> 4 \<longrightarrow> score (run sampleBank (take 1 samplePlay) sampleStarted)
      \<le> score (run sampleBank (take 4 samplePlay) sampleStarted)"
    by blast
  then have "score (run sampleBank (take 1 samplePlay) sampleStarted)
      \<le> score (run sampleBank (take 4 samplePlay) sampleStarted)"
    by simp
  with total play show ?thesis
    by (simp add: sampleStarted_facts list_all_iff)
qed

end
